theory Spec2Isabelle
  imports Main
begin

section \<open>tsh: a tiny shell with job control\<close>

text \<open>
  A shallow embedding of \<^verbatim>\<open>src/tsh.c\<close>. The global job list is passed explicitly and
  returned updated. \<^verbatim>\<open>pid_t\<close> and \<^verbatim>\<open>int\<close> values are only compared and
  copied by the job-list routines (no arithmetic on them), so they are modelled as \<open>int\<close>.
  A pointer \<^verbatim>\<open>&jobs[i]\<close> is the index \<open>i\<close>, \<^verbatim>\<open>NULL\<close> is \<open>None\<close>.
  Where the C code would write outside an array (undefined behaviour) the model returns
  \<open>None\<close>. Console output is not modelled in the job-list routines.
\<close>

subsection \<open>Manifest constants\<close>

definition MAXLINE :: nat where "MAXLINE = 1024"
definition MAXARGS :: nat where "MAXARGS = 128"
definition MAXJOBS :: nat where "MAXJOBS = 16"

text \<open>Job states: \<^verbatim>\<open>#define UNDEF 0\<close>, \<^verbatim>\<open>FG 1\<close>, \<^verbatim>\<open>BG 2\<close>, \<^verbatim>\<open>ST 3\<close>.\<close>

definition UNDEF :: int where "UNDEF = 0"
definition FG :: int where "FG = 1"
definition BG :: int where "BG = 2"
definition ST :: int where "ST = 3"

subsection \<open>The job list\<close>

text \<open>\<^verbatim>\<open>struct job_t\<close>; \<open>cmdline\<close> holds the characters before the terminating NUL.\<close>

record job_t =
  pid :: int
  jid :: int
  state :: int
  cmdline :: string

text \<open>\<^verbatim>\<open>clearjob\<close>: \<^verbatim>\<open>job->cmdline[0] = '\0'\<close> makes the stored string empty.\<close>

definition clearjob :: "job_t \<Rightarrow> job_t" where
  "clearjob job = job\<lparr>pid := 0, jid := 0, state := UNDEF, cmdline := []\<rparr>"

text \<open>\<^verbatim>\<open>initjobs\<close>: \<^verbatim>\<open>for (i = 0; i < MAXJOBS; i++) clearjob(&jobs[i]);\<close>\<close>

definition initjobs :: "job_t list \<Rightarrow> job_t list" where
  "initjobs jobs = fold (\<lambda>i js. js[i := clearjob (js ! i)]) [0..<MAXJOBS] jobs"

text \<open>
  \<^verbatim>\<open>freejid\<close>. The first loop marks \<^verbatim>\<open>taken[jobs[i].jid] = 1\<close> for every slot whose
  jid is not 0; \<^verbatim>\<open>taken\<close> has \<^verbatim>\<open>MAXJOBS + 1\<close> entries, so a jid outside
  \<open>0..MAXJOBS\<close> is a write outside the array (\<open>None\<close>). The second loop returns the
  first \<open>i\<close> in \<open>1..MAXJOBS\<close> with \<^verbatim>\<open>!taken[i]\<close>, or 0.
\<close>

definition mark_taken :: "job_t list \<Rightarrow> nat \<Rightarrow> int list option \<Rightarrow> int list option" where
  "mark_taken jobs i acc =
     (case acc of
        None \<Rightarrow> None
      | Some taken \<Rightarrow>
          if jid (jobs ! i) \<noteq> 0 then
            (if 0 \<le> jid (jobs ! i) \<and> jid (jobs ! i) \<le> int MAXJOBS
             then Some (taken[nat (jid (jobs ! i)) := 1])
             else None)
          else Some taken)"

definition freejid :: "job_t list \<Rightarrow> int option" where
  "freejid jobs =
     (case fold (mark_taken jobs) [0..<MAXJOBS] (Some (replicate (MAXJOBS + 1) 0)) of
        None \<Rightarrow> None
      | Some taken \<Rightarrow>
          (case find (\<lambda>i. taken ! i = 0) [1..<MAXJOBS + 1] of
             Some i \<Rightarrow> Some (int i)
           | None \<Rightarrow> Some 0))"

text \<open>
  \<^verbatim>\<open>addjob\<close>: returns the updated list and the C return value. The slot loop stops at
  the first \<open>i\<close> with \<^verbatim>\<open>jobs[i].pid == 0\<close>. \<^verbatim>\<open>strcpy(jobs[i].cmdline, cmdline)\<close>
  into \<^verbatim>\<open>char cmdline[MAXLINE]\<close> overruns the field when the string has \<open>MAXLINE\<close>
  characters or more (\<open>None\<close>).
\<close>

definition addjob :: "job_t list \<Rightarrow> int \<Rightarrow> int \<Rightarrow> string \<Rightarrow> (job_t list \<times> int) option" where
  "addjob jobs p st cl =
     (if p < 1 then Some (jobs, 0)
      else
        (case freejid jobs of
           None \<Rightarrow> None
         | Some free \<Rightarrow>
             if free = 0 then Some (jobs, 0)
             else
               (case find (\<lambda>i. pid (jobs ! i) = 0) [0..<MAXJOBS] of
                  None \<Rightarrow> Some (jobs, 0)
                | Some i \<Rightarrow>
                    if length cl < MAXLINE
                    then Some (jobs[i := (jobs ! i)\<lparr>pid := p, state := st, jid := free, cmdline := cl\<rparr>], 1)
                    else None)))"

text \<open>\<^verbatim>\<open>deletejob\<close>: clears the first slot whose pid is the given one.\<close>

definition deletejob :: "job_t list \<Rightarrow> int \<Rightarrow> job_t list \<times> int" where
  "deletejob jobs p =
     (if p < 1 then (jobs, 0)
      else
        (case find (\<lambda>i. pid (jobs ! i) = p) [0..<MAXJOBS] of
           Some i \<Rightarrow> (jobs[i := clearjob (jobs ! i)], 1)
         | None \<Rightarrow> (jobs, 0)))"

text \<open>\<^verbatim>\<open>fgpid\<close>: pid of the first slot in state \<open>FG\<close>, 0 if there is none.\<close>

definition fgpid :: "job_t list \<Rightarrow> int" where
  "fgpid jobs =
     (case find (\<lambda>i. state (jobs ! i) = FG) [0..<MAXJOBS] of
        Some i \<Rightarrow> pid (jobs ! i)
      | None \<Rightarrow> 0)"

text \<open>\<^verbatim>\<open>getjobpid\<close>, \<^verbatim>\<open>getjobjid\<close>: the slot found, as its index.\<close>

definition getjobpid :: "job_t list \<Rightarrow> int \<Rightarrow> nat option" where
  "getjobpid jobs p =
     (if p < 1 then None else find (\<lambda>i. pid (jobs ! i) = p) [0..<MAXJOBS])"

definition getjobjid :: "job_t list \<Rightarrow> int \<Rightarrow> nat option" where
  "getjobjid jobs j =
     (if j < 1 then None else find (\<lambda>i. jid (jobs ! i) = j) [0..<MAXJOBS])"

text \<open>\<^verbatim>\<open>pid2jid\<close> reads the global job list, here its first argument.\<close>

definition pid2jid :: "job_t list \<Rightarrow> int \<Rightarrow> int" where
  "pid2jid jobs p =
     (if p < 1 then 0
      else
        (case find (\<lambda>i. pid (jobs ! i) = p) [0..<MAXJOBS] of
           Some i \<Rightarrow> jid (jobs ! i)
         | None \<Rightarrow> 0))"

subsection \<open>The job list as the shell maintains it\<close>

text \<open>
  A slot is either unused (pid 0, jid 0) or holds a job with a positive pid and a jid in
  \<open>1..MAXJOBS\<close>; the jids of the used slots are pairwise different. The array has
  \<open>MAXJOBS\<close> slots. Every list that \<open>initjobs\<close>, \<open>addjob\<close> and \<open>deletejob\<close> build
  satisfies this (lemmas \<open>initjobs_inv\<close>, \<open>addjob_inv\<close>, \<open>deletejob_inv\<close>), and so does
  the job list of the shell whenever it evaluates a command line (lemma \<open>at_prompt_inv\<close>).
\<close>

definition slot_ok :: "job_t \<Rightarrow> bool" where
  "slot_ok j \<longleftrightarrow> (pid j = 0 \<and> jid j = 0) \<or> (1 \<le> pid j \<and> 1 \<le> jid j \<and> jid j \<le> int MAXJOBS)"

definition live_jids :: "job_t list \<Rightarrow> int list" where
  "live_jids jobs = map jid (filter (\<lambda>j. pid j \<noteq> 0) jobs)"

definition jobs_inv :: "job_t list \<Rightarrow> bool" where
  "jobs_inv jobs \<longleftrightarrow> length jobs = MAXJOBS \<and> list_all slot_ok jobs \<and> distinct (live_jids jobs)"

text \<open>\<open>f\<close> is the smallest positive integer that is the jid of no used slot.\<close>

definition smallest_free_jid :: "job_t list \<Rightarrow> int \<Rightarrow> bool" where
  "smallest_free_jid jobs f \<longleftrightarrow>
     1 \<le> f \<and> f \<notin> set (live_jids jobs) \<and> (\<forall>k\<in>{1..<f}. k \<in> set (live_jids jobs))"

text \<open>
  The global \<^verbatim>\<open>struct job_t jobs[MAXJOBS]\<close> before \<^verbatim>\<open>main\<close> runs: static storage,
  all bytes zero.
\<close>

definition jobs0 :: "job_t list" where
  "jobs0 = replicate MAXJOBS \<lparr>pid = 0, jid = 0, state = 0, cmdline = []\<rparr>"

text \<open>Sequences of calls of \<open>addjob\<close> and \<open>deletejob\<close> on the job list.\<close>

datatype job_op = Addjob int int string | Deletejob int

fun apply_op :: "job_t list \<Rightarrow> job_op \<Rightarrow> job_t list option" where
  "apply_op jobs (Addjob p st cl) = map_option fst (addjob jobs p st cl)"
| "apply_op jobs (Deletejob p) = Some (fst (deletejob jobs p))"

fun run_ops :: "job_t list \<Rightarrow> job_op list \<Rightarrow> job_t list option" where
  "run_ops jobs [] = Some jobs"
| "run_ops jobs (x # xs) =
     (case apply_op jobs x of None \<Rightarrow> None | Some jobs' \<Rightarrow> run_ops jobs' xs)"

fun op_fits :: "job_op \<Rightarrow> bool" where
  "op_fits (Addjob p st cl) = (length cl < MAXLINE)"
| "op_fits (Deletejob p) = True"

fun op_pid :: "job_op \<Rightarrow> int" where
  "op_pid (Addjob p st cl) = p"
| "op_pid (Deletejob p) = p"

text \<open>
  \<open>holds_job i x t\<close>: slot \<open>i\<close> of the list \<open>t\<close> holds the job \<open>x\<close>, and no other slot
  holds its pid.
\<close>

definition holds_job :: "nat \<Rightarrow> job_t \<Rightarrow> job_t list \<Rightarrow> bool" where
  "holds_job i x t \<longleftrightarrow>
     jobs_inv t \<and> i < MAXJOBS \<and> t ! i = x \<and> 1 \<le> pid x \<and>
     (\<forall>k<MAXJOBS. k \<noteq> i \<longrightarrow> pid (t ! k) \<noteq> pid x)"

text \<open>The list after \<open>addjob\<close> was called twice with the same pid 5.\<close>

definition same_pid_jobs :: "job_t list" where
  "same_pid_jobs =
     (initjobs jobs0)[0 := \<lparr>pid = 5, jid = 1, state = BG, cmdline = ''a''\<rparr>,
                      1 := \<lparr>pid = 5, jid = 2, state = FG, cmdline = ''b''\<rparr>]"

subsection \<open>The command-line parser\<close>

text \<open>
  \<^verbatim>\<open>parseline\<close> works on a copy of the line in \<^verbatim>\<open>static char array[MAXLINE]\<close>, with the
  pointer \<^verbatim>\<open>buf\<close> moving through it. Here \<open>buf\<close> is the rest of the string from the
  pointer on, and a \<^verbatim>\<open>delim\<close> pointer is an offset into \<open>buf\<close> (\<^verbatim>\<open>NULL\<close> is \<open>None\<close>).

  \<^verbatim>\<open>while (*buf && (*buf == ' ')) buf++;\<close>
\<close>

definition skip_spaces :: "string \<Rightarrow> string" where
  "skip_spaces buf = dropWhile (\<lambda>c. c = CHR '' '') buf"

text \<open>\<^verbatim>\<open>strchr(s, c)\<close>: the offset of the first \<open>c\<close> in \<open>s\<close>.\<close>

definition strchr :: "string \<Rightarrow> char \<Rightarrow> nat option" where
  "strchr s c = (if c \<in> set s then Some (length (takeWhile (\<lambda>x. x \<noteq> c) s)) else None)"

text \<open>
  \<^verbatim>\<open>if (*buf == '\'') { buf++; delim = strchr(buf, '\''); } else { delim = strchr(buf, ' '); }\<close>
  gives the new \<open>buf\<close> and \<open>delim\<close>.
\<close>

definition next_delim :: "string \<Rightarrow> string \<times> nat option" where
  "next_delim buf =
     (if buf \<noteq> [] \<and> hd buf = CHR 0x27
      then (tl buf, strchr (tl buf) (CHR 0x27))
      else (buf, strchr buf CHR '' ''))"

text \<open>
  The loop \<^verbatim>\<open>while (delim) { argv[argc++] = buf; *delim = '\0'; buf = delim + 1; ... }\<close>
  followed by \<^verbatim>\<open>argv[argc] = NULL\<close>. The list \<open>argv\<close> holds \<^verbatim>\<open>argv[0..argc-1]\<close>, so
  \<open>argc\<close> is its length; \<^verbatim>\<open>argv\<close> has \<open>MAXARGS\<close> entries, and a write at index
  \<open>MAXARGS\<close> or beyond is outside the array (\<open>None\<close>).
\<close>

function parse_args :: "string \<Rightarrow> nat option \<Rightarrow> string list \<Rightarrow> string list option" where
  "parse_args buf None argv = (if length argv < MAXARGS then Some argv else None)"
| "parse_args buf (Some d) argv =
     (if length argv < MAXARGS
      then (case next_delim (skip_spaces (drop (Suc d) buf)) of
              (buf', delim') \<Rightarrow> parse_args buf' delim' (argv @ [take d buf]))
      else None)"
  by pat_completeness auto
termination
proof (relation "measure (\<lambda>(buf, delim, argv).
          2 * length buf + (case delim of None \<Rightarrow> 0 | Some _ \<Rightarrow> 1))")
  fix buf :: string and d :: nat and argv :: "string list" and x :: string and y :: "nat option"
  assume xy: "(x, y) = next_delim (skip_spaces (drop (Suc d) buf))"
  let ?rest = "skip_spaces (drop (Suc d) buf)"
  have rest: "length ?rest \<le> length (drop (Suc d) buf)"
    unfolding skip_spaces_def by (rule length_dropWhile_le)
  from xy have x: "length x \<le> length ?rest" and y: "?rest = [] \<longrightarrow> y = None"
    by (auto simp: next_delim_def strchr_def split: if_splits)
  have "2 * length x + (case y of None \<Rightarrow> 0 | Some _ \<Rightarrow> 1) < Suc (2 * length buf)"
  proof (cases buf)
    case Nil
    with x y rest show ?thesis by simp
  next
    case (Cons h t)
    then have "length (drop (Suc d) buf) < length buf" by simp
    with x rest show ?thesis by (cases y) simp_all
  qed
  then show "((x, y, argv @ [take d buf]), (buf, Some d, argv))
      \<in> measure (\<lambda>(buf, delim, argv).
            2 * length buf + (case delim of None \<Rightarrow> 0 | Some _ \<Rightarrow> 1))"
    by simp
qed simp

text \<open>
  \<^verbatim>\<open>parseline\<close> returns \<open>argv\<close> and its C return value, \<^verbatim>\<open>argc\<close>.
  \<^verbatim>\<open>strcpy(buf, cmdline)\<close> needs a line shorter than \<open>MAXLINE\<close>, and
  \<^verbatim>\<open>buf[strlen(buf) - 1] = ' '\<close> a line that is not empty (\<open>None\<close> otherwise).
\<close>

definition parseline :: "string \<Rightarrow> (string list \<times> int) option" where
  "parseline line =
     (if line = [] \<or> MAXLINE \<le> length line then None
      else
        (case next_delim (skip_spaces (butlast line @ [CHR '' ''])) of
           (buf, delim) \<Rightarrow>
             (case parse_args buf delim [] of
                None \<Rightarrow> None
              | Some argv \<Rightarrow> Some (argv, int (length argv)))))"

subsection \<open>Built-in commands and signal handlers\<close>

text \<open>
  \<^verbatim>\<open>int builtin_cmd(char **argv) { return 0; }\<close> and
  \<^verbatim>\<open>void do_bgfg(char **argv) { return; }\<close>.
\<close>

definition builtin_cmd :: "string list \<Rightarrow> int" where
  "builtin_cmd argv = 0"

definition do_bgfg :: "string list \<Rightarrow> job_t list \<Rightarrow> job_t list" where
  "do_bgfg argv jobs = jobs"

text \<open>
  The signals \<^verbatim>\<open>main\<close> installs handlers for. The bodies of \<^verbatim>\<open>sigchld_handler\<close>,
  \<^verbatim>\<open>sigint_handler\<close> and \<^verbatim>\<open>sigtstp_handler\<close> are \<^verbatim>\<open>return;\<close>;
  \<^verbatim>\<open>sigusr1_handler\<close> sets the flag \<^verbatim>\<open>ready\<close>, which is never read;
  \<^verbatim>\<open>sigquit_handler\<close> calls \<^verbatim>\<open>exit(1)\<close>. A handler is a function on the global job
  list; \<open>deliver\<close> runs the handler installed for a signal, \<open>None\<close> when the shell exits.
\<close>

datatype signal = SIGCHLD | SIGINT | SIGTSTP | SIGUSR1 | SIGQUIT

definition sigchld_handler :: "signal \<Rightarrow> job_t list \<Rightarrow> job_t list" where
  "sigchld_handler sig jobs = jobs"

definition sigint_handler :: "signal \<Rightarrow> job_t list \<Rightarrow> job_t list" where
  "sigint_handler sig jobs = jobs"

definition sigtstp_handler :: "signal \<Rightarrow> job_t list \<Rightarrow> job_t list" where
  "sigtstp_handler sig jobs = jobs"

definition sigusr1_handler :: "signal \<Rightarrow> job_t list \<Rightarrow> job_t list" where
  "sigusr1_handler sig jobs = jobs"

fun deliver :: "signal \<Rightarrow> job_t list \<Rightarrow> job_t list option" where
  "deliver SIGCHLD jobs = Some (sigchld_handler SIGCHLD jobs)"
| "deliver SIGINT jobs = Some (sigint_handler SIGINT jobs)"
| "deliver SIGTSTP jobs = Some (sigtstp_handler SIGTSTP jobs)"
| "deliver SIGUSR1 jobs = Some (sigusr1_handler SIGUSR1 jobs)"
| "deliver SIGQUIT jobs = None"

subsection \<open>Evaluating a command line\<close>

text \<open>
  How a call ends: it returns with the job list as it then is, it is still suspended in
  \<^verbatim>\<open>sigsuspend\<close>, the shell has exited, or the process is the forked child (which ends in
  \<^verbatim>\<open>execvp\<close> or \<^verbatim>\<open>exit(1)\<close> and never returns into the shell's code).
\<close>

datatype outcome = Returns "job_t list" | Suspended "job_t list" | Exits | Child

text \<open>
  \<^verbatim>\<open>waitfg\<close>: \<^verbatim>\<open>while (fgpid(jobs) == pid) sigsuspend(&mask);\<close> Each
  \<^verbatim>\<open>sigsuspend\<close> returns after one signal was caught and its handler has run; the list
  \<open>sigs\<close> holds the signals that arrive during the wait.
\<close>

fun waitfg :: "job_t list \<Rightarrow> int \<Rightarrow> signal list \<Rightarrow> outcome" where
  "waitfg jobs p [] = (if fgpid jobs = p then Suspended jobs else Returns jobs)"
| "waitfg jobs p (s # sigs) =
     (if fgpid jobs = p
      then (case deliver s jobs of None \<Rightarrow> Exits | Some jobs' \<Rightarrow> waitfg jobs' p sigs)
      else Returns jobs)"

text \<open>
  The calls \<^verbatim>\<open>eval\<close> makes on its launch path, in the order it makes them:
  \<^verbatim>\<open>sigprocmask(SIG_BLOCK, &mask_one, &prev_one)\<close>, \<^verbatim>\<open>fork()\<close>,
  \<^verbatim>\<open>unix_error("fork error")\<close>, the child branch, \<^verbatim>\<open>addjob(jobs, pid, state, cmdline)\<close>,
  the two messages, \<^verbatim>\<open>sigprocmask(SIG_UNBLOCK, &mask_one, NULL)\<close> and
  \<^verbatim>\<open>waitfg(pid)\<close>.
\<close>

datatype event =
    EvBlock | EvFork | EvUnixError | EvChild
  | EvAddjob int int | EvPrintFailed | EvPrintJob int int string
  | EvUnblock | EvWaitfg int

text \<open>
  The block of \<^verbatim>\<open>eval\<close> from \<^verbatim>\<open>sigprocmask(SIG_BLOCK, ...)\<close> on. \<open>p\<close> is what
  \<^verbatim>\<open>fork()\<close> returns: negative on failure, 0 in the child, the child's pid in the parent.
  The scan for \<^verbatim>\<open><\<close> and \<^verbatim>\<open>>\<close> before it changes only \<^verbatim>\<open>argv\<close> and the file names
  that the child uses, and is left out.
\<close>

definition launch :: "int \<Rightarrow> int \<Rightarrow> string \<Rightarrow> signal list \<Rightarrow> job_t list \<Rightarrow> (event list \<times> outcome) option" where
  "launch bg p line sigs jobs =
     (if p < 0 then Some ([EvBlock, EvFork, EvUnixError], Exits)
      else if p = 0 then Some ([EvBlock, EvFork, EvChild], Child)
      else if bg = 0 then
        (case addjob jobs p FG line of
           None \<Rightarrow> None
         | Some (jobs', r) \<Rightarrow>
             Some ([EvBlock, EvFork, EvAddjob p FG] @ (if r = 0 then [EvPrintFailed] else [])
                   @ [EvUnblock, EvWaitfg p],
                   waitfg jobs' p sigs))
      else
        (case addjob jobs p BG line of
           None \<Rightarrow> None
         | Some (jobs', r) \<Rightarrow>
             Some ([EvBlock, EvFork, EvAddjob p BG]
                   @ (if r = 0 then [EvPrintFailed] else [EvPrintJob (pid2jid jobs' p) p line])
                   @ [EvUnblock],
                   Returns jobs')))"

text \<open>
  \<^verbatim>\<open>eval\<close>: \<^verbatim>\<open>strcpy(buf, cmdline); bg = parseline(buf, argv);
  if (argv[0] == NULL) return; if (!builtin_cmd(argv)) { ... }\<close>
  The copy into \<^verbatim>\<open>char buf[MAXLINE]\<close> needs a line shorter than \<open>MAXLINE\<close>. Besides the
  line and the job list, \<open>eval\<close> takes what the environment supplies: the value \<open>p\<close>
  that \<^verbatim>\<open>fork()\<close> returns and the signals \<open>sigs\<close> that arrive while it waits.
\<close>

definition eval :: "string \<Rightarrow> int \<Rightarrow> signal list \<Rightarrow> job_t list \<Rightarrow> (event list \<times> outcome) option" where
  "eval line p sigs jobs =
     (if MAXLINE \<le> length line then None
      else
        (case parseline line of
           None \<Rightarrow> None
         | Some (argv, bg) \<Rightarrow>
             if argv = [] then Some ([], Returns jobs)
             else if builtin_cmd argv = 0 then launch bg p line sigs jobs
             else Some ([], Returns jobs)))"

subsection \<open>The states of the shell\<close>

text \<open>The number of slots whose state is \<open>FG\<close>.\<close>

definition fg_count :: "job_t list \<Rightarrow> nat" where
  "fg_count jobs = length (filter (\<lambda>j. state j = FG) jobs)"

text \<open>
  The job lists the shell can have. \<^verbatim>\<open>main\<close> calls \<^verbatim>\<open>initjobs(jobs)\<close> and then loops
  over \<^verbatim>\<open>eval(cmdline)\<close>; a handler can run at any moment. \<open>at_prompt\<close> holds of the
  job list between two calls of \<^verbatim>\<open>eval\<close>, \<open>shell_state\<close> also of the job list while
  \<^verbatim>\<open>eval\<close> is suspended in \<^verbatim>\<open>waitfg\<close>.
\<close>

inductive at_prompt :: "job_t list \<Rightarrow> bool" where
  start: "at_prompt (initjobs jobs0)"
| eval_returns: "at_prompt jobs \<Longrightarrow> eval line p sigs jobs = Some (tr, Returns jobs') \<Longrightarrow> at_prompt jobs'"
| signal: "at_prompt jobs \<Longrightarrow> deliver s jobs = Some jobs' \<Longrightarrow> at_prompt jobs'"
| bgfg: "at_prompt jobs \<Longrightarrow> at_prompt (do_bgfg argv jobs)"

inductive shell_state :: "job_t list \<Rightarrow> bool" where
  prompt: "at_prompt jobs \<Longrightarrow> shell_state jobs"
| waiting: "at_prompt jobs \<Longrightarrow> eval line p sigs jobs = Some (tr, Suspended jobs') \<Longrightarrow> shell_state jobs'"

section \<open>Lemmas\<close>

subsection \<open>Loops over an index range\<close>

lemma find_upt_Some:
  "find P [a..<n] = Some i \<longleftrightarrow> a \<le> i \<and> i < n \<and> P i \<and> (\<forall>j. a \<le> j \<and> j < i \<longrightarrow> \<not> P j)"
proof
  assume "find P [a..<n] = Some i"
  then obtain k where k: "k < n - a" "P ([a..<n] ! k)" "i = [a..<n] ! k"
    and least: "\<forall>j<k. \<not> P ([a..<n] ! j)"
    by (auto simp: find_Some_iff)
  from k have i: "i = a + k" by simp
  have "\<not> P j" if "a \<le> j" "j < i" for j
  proof -
    from that i have "j - a < k" by arith
    with least have "\<not> P ([a..<n] ! (j - a))" by blast
    moreover from that k i have "[a..<n] ! (j - a) = j" by simp
    ultimately show ?thesis by simp
  qed
  with k i show "a \<le> i \<and> i < n \<and> P i \<and> (\<forall>j. a \<le> j \<and> j < i \<longrightarrow> \<not> P j)"
    by simp
next
  assume r: "a \<le> i \<and> i < n \<and> P i \<and> (\<forall>j. a \<le> j \<and> j < i \<longrightarrow> \<not> P j)"
  then have "i - a < length [a..<n]" "P ([a..<n] ! (i - a))" "i = [a..<n] ! (i - a)"
    by auto
  moreover have "\<forall>j<i - a. \<not> P ([a..<n] ! j)"
  proof (intro allI impI)
    fix j assume "j < i - a"
    with r have "a + j < n" "a \<le> a + j" "a + j < i" by arith+
    with r show "\<not> P ([a..<n] ! j)" by simp
  qed
  ultimately show "find P [a..<n] = Some i"
    unfolding find_Some_iff by blast
qed

lemma find_upt_None:
  "find P [a..<n] = None \<longleftrightarrow> (\<forall>i. a \<le> i \<and> i < n \<longrightarrow> \<not> P i)"
  by (auto simp: find_None_iff)

lemma fold_update_upt:
  "n \<le> length xs \<Longrightarrow>
   fold (\<lambda>i js. js[i := f (js ! i)]) [0..<n] xs = map f (take n xs) @ drop n xs"
proof (induction n)
  case 0
  then show ?case by simp
next
  case (Suc n)
  then have n: "n < length xs" by simp
  have "fold (\<lambda>i js. js[i := f (js ! i)]) [0..<Suc n] xs
        = (map f (take n xs) @ drop n xs)[n := f ((map f (take n xs) @ drop n xs) ! n)]"
    using Suc by simp
  also have "\<dots> = map f (take n xs) @ (drop n xs)[0 := f (xs ! n)]"
    using n by (simp add: list_update_append nth_append)
  also have "drop n xs = xs ! n # drop (Suc n) xs"
    using n by (simp add: Cons_nth_drop_Suc)
  also have "map f (take n xs) @ (xs ! n # drop (Suc n) xs)[0 := f (xs ! n)]
             = map f (take (Suc n) xs) @ drop (Suc n) xs"
    using n by (simp add: take_Suc_conv_app_nth)
  finally show ?case .
qed

lemma initjobs_map: "length jobs = MAXJOBS \<Longrightarrow> initjobs jobs = map clearjob jobs"
  by (simp add: initjobs_def fold_update_upt)

subsection \<open>The smallest free job id\<close>

lemma fold_mark_taken:
  assumes "\<forall>i\<in>set is. 0 \<le> jid (jobs ! i) \<and> jid (jobs ! i) \<le> int MAXJOBS"
  shows "\<exists>t'. fold (mark_taken jobs) is (Some t) = Some t' \<and> length t' = length t \<and>
           (\<forall>k<length t. t' ! k =
              (if \<exists>i\<in>set is. jid (jobs ! i) \<noteq> 0 \<and> nat (jid (jobs ! i)) = k then 1 else t ! k))"
  using assms
proof (induction "is" arbitrary: t)
  case Nil
  then show ?case by simp
next
  case (Cons i "is")
  show ?case
  proof (cases "jid (jobs ! i) = 0")
    case True
    then have "fold (mark_taken jobs) (i # is) (Some t) = fold (mark_taken jobs) is (Some t)"
      by (simp add: mark_taken_def)
    with Cons.IH[of t] Cons.prems True show ?thesis by auto
  next
    case False
    let ?t = "t[nat (jid (jobs ! i)) := 1]"
    from False Cons.prems
    have "fold (mark_taken jobs) (i # is) (Some t) = fold (mark_taken jobs) is (Some ?t)"
      by (simp add: mark_taken_def)
    moreover from Cons.IH[of ?t] Cons.prems obtain t' where
      t': "fold (mark_taken jobs) is (Some ?t) = Some t'" "length t' = length t"
      "\<forall>k<length t. t' ! k =
          (if \<exists>i\<in>set is. jid (jobs ! i) \<noteq> 0 \<and> nat (jid (jobs ! i)) = k then 1 else ?t ! k)"
      by auto
    ultimately show ?thesis using False
      by (auto simp: nth_list_update)
  qed
qed

lemma slot_ok_nth: "list_all slot_ok jobs \<Longrightarrow> i < length jobs \<Longrightarrow> slot_ok (jobs ! i)"
  by (simp add: list_all_length)

lemma live_jids_iff:
  "j \<in> set (live_jids jobs) \<longleftrightarrow> (\<exists>i<length jobs. pid (jobs ! i) \<noteq> 0 \<and> jid (jobs ! i) = j)"
  by (auto simp: live_jids_def in_set_conv_nth)

lemma taken_live:
  assumes len: "length jobs = MAXJOBS" and ok: "list_all slot_ok jobs" and k: "1 \<le> k"
  shows "(\<exists>i\<in>set [0..<MAXJOBS]. jid (jobs ! i) \<noteq> 0 \<and> nat (jid (jobs ! i)) = k)
         \<longleftrightarrow> int k \<in> set (live_jids jobs)"
proof
  assume "\<exists>i\<in>set [0..<MAXJOBS]. jid (jobs ! i) \<noteq> 0 \<and> nat (jid (jobs ! i)) = k"
  then obtain i where i: "i < MAXJOBS" "jid (jobs ! i) \<noteq> 0" "nat (jid (jobs ! i)) = k"
    by auto
  with len ok have "slot_ok (jobs ! i)" by (simp add: slot_ok_nth)
  with i have "pid (jobs ! i) \<noteq> 0" "jid (jobs ! i) = int k"
    by (auto simp: slot_ok_def)
  with i len show "int k \<in> set (live_jids jobs)"
    unfolding live_jids_iff by auto
next
  assume "int k \<in> set (live_jids jobs)"
  then obtain i where i: "i < length jobs" "pid (jobs ! i) \<noteq> 0" "jid (jobs ! i) = int k"
    unfolding live_jids_iff by auto
  with k len show "\<exists>i\<in>set [0..<MAXJOBS]. jid (jobs ! i) \<noteq> 0 \<and> nat (jid (jobs ! i)) = k"
    by (intro bexI[of _ i]) auto
qed

lemma freejid_spec:
  assumes len: "length jobs = MAXJOBS" and ok: "list_all slot_ok jobs"
  shows "\<exists>f. freejid jobs = Some f \<and>
           (if f = 0 then \<forall>k\<in>{1..int MAXJOBS}. k \<in> set (live_jids jobs)
            else smallest_free_jid jobs f \<and> f \<le> int MAXJOBS)"
proof -
  have rng: "\<forall>i\<in>set [0..<MAXJOBS]. 0 \<le> jid (jobs ! i) \<and> jid (jobs ! i) \<le> int MAXJOBS"
  proof
    fix i assume "i \<in> set [0..<MAXJOBS]"
    with len ok have "slot_ok (jobs ! i)" by (simp add: slot_ok_nth)
    then show "0 \<le> jid (jobs ! i) \<and> jid (jobs ! i) \<le> int MAXJOBS"
      by (auto simp: slot_ok_def)
  qed
  from fold_mark_taken[OF rng, of "replicate (MAXJOBS + 1) 0"] obtain t where
    t: "fold (mark_taken jobs) [0..<MAXJOBS] (Some (replicate (MAXJOBS + 1) 0)) = Some t"
    and tk0: "\<forall>k<length (replicate (MAXJOBS + 1) (0::int)). t ! k =
       (if \<exists>i\<in>set [0..<MAXJOBS]. jid (jobs ! i) \<noteq> 0 \<and> nat (jid (jobs ! i)) = k then 1
        else replicate (MAXJOBS + 1) 0 ! k)"
    by blast
  have tk: "t ! k =
       (if \<exists>i\<in>set [0..<MAXJOBS]. jid (jobs ! i) \<noteq> 0 \<and> nat (jid (jobs ! i)) = k then 1 else 0)"
    if "k < MAXJOBS + 1" for k
  proof -
    from that have "replicate (MAXJOBS + 1) (0::int) ! k = 0"
      by (simp only: nth_replicate)
    with tk0 that show ?thesis by (simp del: replicate_Suc)
  qed
  have free: "t ! k = 0 \<longleftrightarrow> int k \<notin> set (live_jids jobs)" if "1 \<le> k" "k < MAXJOBS + 1" for k
    using tk that taken_live[OF len ok, of k] by auto
  show ?thesis
  proof (cases "find (\<lambda>i. t ! i = 0) [1..<MAXJOBS + 1]")
    case None
    from None[unfolded find_upt_None] free have "\<forall>k. 1 \<le> k \<and> k < MAXJOBS + 1 \<longrightarrow> int k \<in> set (live_jids jobs)"
      by blast
    then have "\<forall>k\<in>{1..int MAXJOBS}. k \<in> set (live_jids jobs)"
    proof (intro ballI)
      fix k :: int assume a: "\<forall>k. 1 \<le> k \<and> k < MAXJOBS + 1 \<longrightarrow> int k \<in> set (live_jids jobs)"
        and "k \<in> {1..int MAXJOBS}"
      then have "1 \<le> nat k \<and> nat k < MAXJOBS + 1" "int (nat k) = k" by auto
      with a show "k \<in> set (live_jids jobs)" by metis
    qed
    with None t show ?thesis by (simp add: freejid_def)
  next
    case (Some i)
    from Some[unfolded find_upt_Some] have i: "1 \<le> i" "i < MAXJOBS + 1" "t ! i = 0" "\<forall>j. 1 \<le> j \<and> j < i \<longrightarrow> t ! j \<noteq> 0"
      by blast+
    have "int i \<notin> set (live_jids jobs)" using free i by simp
    moreover have "\<forall>k\<in>{1..<int i}. k \<in> set (live_jids jobs)"
    proof
      fix k :: int assume "k \<in> {1..<int i}"
      then have k: "1 \<le> nat k" "nat k < i" "int (nat k) = k" by auto
      with i have "t ! nat k \<noteq> 0" "nat k < MAXJOBS + 1" by auto
      with free[of "nat k"] k show "k \<in> set (live_jids jobs)" by simp
    qed
    ultimately have "smallest_free_jid jobs (int i)"
      using i by (simp add: smallest_free_jid_def)
    with Some t i show ?thesis by (simp add: freejid_def)
  qed
qed

lemma freejid_not_full:
  assumes len: "length jobs = MAXJOBS" and ok: "list_all slot_ok jobs"
    and free: "\<exists>x\<in>set jobs. pid x = 0"
  shows "freejid jobs \<noteq> Some 0"
proof
  assume z: "freejid jobs = Some 0"
  with freejid_spec[OF len ok] have "\<forall>k\<in>{1..int MAXJOBS}. k \<in> set (live_jids jobs)"
    by auto
  then have "{1..int MAXJOBS} \<subseteq> set (live_jids jobs)" by blast
  then have "card {1..int MAXJOBS} \<le> card (set (live_jids jobs))"
    by (intro card_mono) auto
  also have "\<dots> \<le> length (live_jids jobs)" by (rule card_length)
  also have "\<dots> < length jobs"
  proof -
    from free obtain x where "x \<in> set jobs" "\<not> pid x \<noteq> 0" by auto
    then show ?thesis
      unfolding live_jids_def length_map by (rule length_filter_less)
  qed
  finally show False using len by simp
qed

subsection \<open>The invariant of the job list\<close>

lemma distinct_map_filter_nth:
  "distinct (map f (filter P xs)) \<longleftrightarrow>
     (\<forall>i<length xs. \<forall>j<length xs. i \<noteq> j \<longrightarrow> P (xs ! i) \<longrightarrow> P (xs ! j) \<longrightarrow> f (xs ! i) \<noteq> f (xs ! j))"
  (is "?D xs \<longleftrightarrow> ?Q xs")
proof (induction xs)
  case Nil
  then show ?case by simp
next
  case (Cons x xs)
  let ?H = "\<forall>j<length xs. P (xs ! j) \<longrightarrow> f x \<noteq> f (xs ! j)"
  have head: "f x \<notin> f ` {y \<in> set xs. P y} \<longleftrightarrow> ?H"
    by (auto simp: in_set_conv_nth image_iff)
  have "?Q (x # xs) \<longleftrightarrow> ?Q xs \<and> (P x \<longrightarrow> ?H)"
  proof (intro iffI conjI)
    assume q: "?Q (x # xs)"
    show "?Q xs"
    proof (intro allI impI)
      fix i j assume "i < length xs" "j < length xs" "i \<noteq> j" "P (xs ! i)" "P (xs ! j)"
      with q[rule_format, of "Suc i" "Suc j"] show "f (xs ! i) \<noteq> f (xs ! j)" by simp
    qed
    show "P x \<longrightarrow> ?H"
    proof (intro allI impI)
      fix j assume "P x" "j < length xs" "P (xs ! j)"
      with q[rule_format, of 0 "Suc j"] show "f x \<noteq> f (xs ! j)" by simp
    qed
  next
    assume a: "?Q xs \<and> (P x \<longrightarrow> ?H)"
    show "?Q (x # xs)"
    proof (intro allI impI)
      fix i j
      assume b: "i < length (x # xs)" "j < length (x # xs)" "i \<noteq> j"
        "P ((x # xs) ! i)" "P ((x # xs) ! j)"
      show "f ((x # xs) ! i) \<noteq> f ((x # xs) ! j)"
      proof (cases i)
        case 0
        with b obtain j' where j': "j = Suc j'" by (cases j) auto
        with 0 b a show ?thesis by simp
      next
        case (Suc i')
        show ?thesis
        proof (cases j)
          case 0
          with Suc b a have "f x \<noteq> f (xs ! i')" by simp
          with 0 Suc show ?thesis by simp
        next
          case (Suc j')
          with \<open>i = Suc i'\<close> b a show ?thesis by simp
        qed
      qed
    qed
  qed
  moreover have "?D (x # xs) \<longleftrightarrow> ?D xs \<and> (P x \<longrightarrow> f x \<notin> f ` {y \<in> set xs. P y})"
    by auto
  ultimately show ?case using Cons.IH head by simp
qed

lemma jobs_inv_nth:
  "jobs_inv jobs \<longleftrightarrow>
     length jobs = MAXJOBS \<and> (\<forall>i<MAXJOBS. slot_ok (jobs ! i)) \<and>
     (\<forall>i<MAXJOBS. \<forall>j<MAXJOBS. i \<noteq> j \<longrightarrow> pid (jobs ! i) \<noteq> 0 \<longrightarrow> pid (jobs ! j) \<noteq> 0 \<longrightarrow>
        jid (jobs ! i) \<noteq> jid (jobs ! j))"
  unfolding jobs_inv_def live_jids_def distinct_map_filter_nth list_all_length
  by auto

lemma addjob_fail:
  assumes "length jobs = MAXJOBS" "list_all slot_ok jobs"
    and "p < 1 \<or> (\<forall>i<MAXJOBS. pid (jobs ! i) \<noteq> 0)"
  shows "addjob jobs p st cl = Some (jobs, 0)"
proof (cases "p < 1")
  case True
  then show ?thesis by (simp add: addjob_def)
next
  case False
  with assms have "find (\<lambda>i. pid (jobs ! i) = 0) [0..<MAXJOBS] = None"
    unfolding find_upt_None by simp
  moreover from freejid_spec[OF assms(1,2)] obtain f where "freejid jobs = Some f" by blast
  ultimately show ?thesis using False by (simp add: addjob_def)
qed

lemma addjob_success:
  assumes len: "length jobs = MAXJOBS" and ok: "list_all slot_ok jobs"
    and p: "1 \<le> p" and free: "\<exists>i<MAXJOBS. pid (jobs ! i) = 0" and cl: "length cl < MAXLINE"
  shows "\<exists>i f. i < MAXJOBS \<and> pid (jobs ! i) = 0 \<and> (\<forall>j<i. pid (jobs ! j) \<noteq> 0) \<and>
           smallest_free_jid jobs f \<and> f \<le> int MAXJOBS \<and>
           addjob jobs p st cl =
             Some (jobs[i := (jobs ! i)\<lparr>pid := p, state := st, jid := f, cmdline := cl\<rparr>], 1)"
proof -
  from free len have "\<exists>x\<in>set jobs. pid x = 0"
    by (metis nth_mem)
  from freejid_not_full[OF len ok this] freejid_spec[OF len ok]
  obtain f where f: "freejid jobs = Some f" "f \<noteq> 0" "smallest_free_jid jobs f" "f \<le> int MAXJOBS"
    by (auto split: if_splits)
  from free obtain i where "find (\<lambda>i. pid (jobs ! i) = 0) [0..<MAXJOBS] = Some i"
    by (cases "find (\<lambda>i. pid (jobs ! i) = 0) [0..<MAXJOBS]") (auto simp: find_upt_None)
  moreover from this[unfolded find_upt_Some]
  have "i < MAXJOBS" "pid (jobs ! i) = 0" "\<forall>j<i. pid (jobs ! j) \<noteq> 0" by auto
  ultimately show ?thesis using f p cl
    by (intro exI[of _ i] exI[of _ f]) (simp add: addjob_def)
qed

lemma addjob_overrun:
  assumes len: "length jobs = MAXJOBS" and ok: "list_all slot_ok jobs"
    and p: "1 \<le> p" and free: "\<exists>i<MAXJOBS. pid (jobs ! i) = 0" and cl: "MAXLINE \<le> length cl"
  shows "addjob jobs p st cl = None"
proof -
  from free len have "\<exists>x\<in>set jobs. pid x = 0"
    by (metis nth_mem)
  from freejid_not_full[OF len ok this] freejid_spec[OF len ok]
  obtain f where f: "freejid jobs = Some f" "f \<noteq> 0"
    by (auto split: if_splits)
  from free obtain i where "find (\<lambda>i. pid (jobs ! i) = 0) [0..<MAXJOBS] = Some i"
    by (cases "find (\<lambda>i. pid (jobs ! i) = 0) [0..<MAXJOBS]") (auto simp: find_upt_None)
  with f p cl show ?thesis by (simp add: addjob_def)
qed

lemma jobs_inv_update_live:
  assumes inv: "jobs_inv jobs" and i: "i < MAXJOBS" and "pid (jobs ! i) = 0"
    and "1 \<le> p" and f: "smallest_free_jid jobs f" "f \<le> int MAXJOBS"
    and x: "pid x = p" "jid x = f"
  shows "jobs_inv (jobs[i := x])"
proof -
  from inv have len: "length jobs = MAXJOBS" by (simp add: jobs_inv_def)
  from f have fresh: "\<forall>k<MAXJOBS. pid (jobs ! k) \<noteq> 0 \<longrightarrow> jid (jobs ! k) \<noteq> f"
    using len by (auto simp: smallest_free_jid_def live_jids_iff)
  from f x \<open>1 \<le> p\<close> have "slot_ok x"
    by (simp add: slot_ok_def smallest_free_jid_def)
  with inv i fresh x \<open>1 \<le> p\<close> \<open>pid (jobs ! i) = 0\<close> show ?thesis
    unfolding jobs_inv_nth by (auto simp: nth_list_update)
qed

lemma jobs_inv_update_clear:
  assumes inv: "jobs_inv jobs" and i: "i < MAXJOBS"
  shows "jobs_inv (jobs[i := clearjob (jobs ! i)])"
proof -
  have "slot_ok (clearjob y)" "pid (clearjob y) = 0" for y
    by (simp_all add: slot_ok_def clearjob_def)
  with inv i show ?thesis
    unfolding jobs_inv_nth by (auto simp: nth_list_update)
qed

lemma addjob_inv:
  assumes "jobs_inv jobs" "addjob jobs p st cl = Some (jobs', r)"
  shows "jobs_inv jobs'"
proof -
  from assms(1) have len: "length jobs = MAXJOBS" and ok: "list_all slot_ok jobs"
    by (simp_all add: jobs_inv_def)
  show ?thesis
  proof (cases "p < 1 \<or> (\<forall>i<MAXJOBS. pid (jobs ! i) \<noteq> 0)")
    case True
    from addjob_fail[OF len ok True] assms show ?thesis by simp
  next
    case False
    then have p1: "1 \<le> p" and fr: "\<exists>i<MAXJOBS. pid (jobs ! i) = 0" by auto
    from addjob_overrun[OF len ok p1 fr, of cl st] assms(2) have cl: "length cl < MAXLINE"
      by (cases "length cl < MAXLINE") auto
    from addjob_success[OF len ok p1 fr cl, of st] assms(2)
    obtain i f where "i < MAXJOBS" "pid (jobs ! i) = 0" "smallest_free_jid jobs f" "f \<le> int MAXJOBS"
      "jobs' = jobs[i := (jobs ! i)\<lparr>pid := p, state := st, jid := f, cmdline := cl\<rparr>]"
      by auto
    with assms(1) \<open>1 \<le> p\<close> show ?thesis
      by (simp add: jobs_inv_update_live)
  qed
qed

lemma deletejob_inv:
  assumes "jobs_inv jobs"
  shows "jobs_inv (fst (deletejob jobs p))"
proof (cases "find (\<lambda>i. pid (jobs ! i) = p) [0..<MAXJOBS]")
  case None
  with assms show ?thesis by (simp add: deletejob_def)
next
  case (Some i)
  from Some[unfolded find_upt_Some] have "i < MAXJOBS" by simp
  with assms Some show ?thesis
    by (simp add: deletejob_def jobs_inv_update_clear)
qed

lemma initjobs_inv:
  assumes "length jobs = MAXJOBS"
  shows "jobs_inv (initjobs jobs)"
proof -
  have "slot_ok (clearjob y)" "pid (clearjob y) = 0" for y
    by (simp_all add: slot_ok_def clearjob_def)
  with assms show ?thesis
    unfolding jobs_inv_nth by (simp add: initjobs_map)
qed

lemma addjob_total:
  assumes "jobs_inv jobs" "length cl < MAXLINE"
  shows "\<exists>jobs' r. addjob jobs p st cl = Some (jobs', r)"
proof -
  from assms(1) have len: "length jobs = MAXJOBS" and ok: "list_all slot_ok jobs"
    by (simp_all add: jobs_inv_def)
  show ?thesis
  proof (cases "p < 1 \<or> (\<forall>i<MAXJOBS. pid (jobs ! i) \<noteq> 0)")
    case True
    from addjob_fail[OF len ok True] show ?thesis by blast
  next
    case False
    then have p1: "1 \<le> p" and fr: "\<exists>i<MAXJOBS. pid (jobs ! i) = 0" by auto
    from addjob_success[OF len ok p1 fr assms(2), of st] show ?thesis by blast
  qed
qed

lemma apply_op_inv:
  assumes "jobs_inv jobs" "op_fits x"
  shows "\<exists>jobs'. apply_op jobs x = Some jobs' \<and> jobs_inv jobs'"
proof (cases x)
  case (Addjob p st cl)
  with assms addjob_total[of jobs cl p st] obtain jobs' r where
    "addjob jobs p st cl = Some (jobs', r)" by auto
  with Addjob addjob_inv[OF assms(1) this] show ?thesis by simp
next
  case (Deletejob p)
  with deletejob_inv[OF assms(1), of p] show ?thesis by simp
qed

lemma run_ops_inv:
  "jobs_inv jobs \<Longrightarrow> list_all op_fits ops \<Longrightarrow>
   \<exists>jobs'. run_ops jobs ops = Some jobs' \<and> jobs_inv jobs'"
proof (induction ops arbitrary: jobs)
  case Nil
  then show ?case by simp
next
  case (Cons x xs)
  from apply_op_inv[of jobs x] Cons.prems obtain t where
    t: "apply_op jobs x = Some t" "jobs_inv t" by auto
  from Cons.IH[OF t(2)] Cons.prems t(1) show ?case by simp
qed

lemma addjob_result:
  assumes inv: "jobs_inv jobs" and r: "addjob jobs p st cl = Some (jobs', 1)"
  shows "\<exists>i f. i < MAXJOBS \<and> pid (jobs ! i) = 0 \<and> (\<forall>j<i. pid (jobs ! j) \<noteq> 0) \<and>
           smallest_free_jid jobs f \<and> f \<le> int MAXJOBS \<and> 1 \<le> p \<and> length cl < MAXLINE \<and>
           jobs' = jobs[i := (jobs ! i)\<lparr>pid := p, state := st, jid := f, cmdline := cl\<rparr>]"
proof -
  from inv have len: "length jobs = MAXJOBS" and ok: "list_all slot_ok jobs"
    by (simp_all add: jobs_inv_def)
  have nf: "\<not> (p < 1 \<or> (\<forall>i<MAXJOBS. pid (jobs ! i) \<noteq> 0))"
  proof
    assume "p < 1 \<or> (\<forall>i<MAXJOBS. pid (jobs ! i) \<noteq> 0)"
    from addjob_fail[OF len ok this, of st cl] r show False by simp
  qed
  then have p1: "1 \<le> p" and fr: "\<exists>i<MAXJOBS. pid (jobs ! i) = 0" by auto
  from addjob_overrun[OF len ok p1 fr, of cl st] r have cl: "length cl < MAXLINE"
    by (cases "length cl < MAXLINE") auto
  from addjob_success[OF len ok p1 fr cl, of st] r p1 cl show ?thesis
    by auto
qed

subsection \<open>A job stays where it was added\<close>

lemma addjob_cases:
  assumes inv: "jobs_inv jobs" and cl: "length cl < MAXLINE"
  shows "addjob jobs p st cl = Some (jobs, 0) \<or>
         (\<exists>i f. i < MAXJOBS \<and> pid (jobs ! i) = 0 \<and> 1 \<le> p \<and> smallest_free_jid jobs f \<and>
            addjob jobs p st cl =
              Some (jobs[i := \<lparr>pid = p, jid = f, state = st, cmdline = cl\<rparr>], 1))"
proof -
  from inv have len: "length jobs = MAXJOBS" and ok: "list_all slot_ok jobs"
    by (simp_all add: jobs_inv_def)
  show ?thesis
  proof (cases "p < 1 \<or> (\<forall>i<MAXJOBS. pid (jobs ! i) \<noteq> 0)")
    case True
    from addjob_fail[OF len ok True, of st cl] show ?thesis by simp
  next
    case False
    then have p1: "1 \<le> p" and fr: "\<exists>i<MAXJOBS. pid (jobs ! i) = 0" by auto
    from addjob_success[OF len ok p1 fr cl, of st] obtain i f where
      *: "i < MAXJOBS" "pid (jobs ! i) = 0" "smallest_free_jid jobs f"
      "addjob jobs p st cl =
         Some (jobs[i := (jobs ! i)\<lparr>pid := p, state := st, jid := f, cmdline := cl\<rparr>], 1)"
      by blast
    have "(jobs ! i)\<lparr>pid := p, state := st, jid := f, cmdline := cl\<rparr>
          = \<lparr>pid = p, jid = f, state = st, cmdline = cl\<rparr>"
      by simp
    with * p1 show ?thesis by auto
  qed
qed

lemma deletejob_cases:
  "deletejob jobs p = (jobs, 0) \<or>
   (\<exists>i<MAXJOBS. pid (jobs ! i) = p \<and> (\<forall>k<i. pid (jobs ! k) \<noteq> p) \<and> 1 \<le> p \<and>
      deletejob jobs p = (jobs[i := clearjob (jobs ! i)], 1))"
proof (cases "find (\<lambda>i. pid (jobs ! i) = p) [0..<MAXJOBS]")
  case None
  then show ?thesis by (simp add: deletejob_def)
next
  case (Some i)
  from Some[unfolded find_upt_Some] Some show ?thesis
    by (cases "p < 1") (auto simp: deletejob_def)
qed

lemma apply_op_holds:
  assumes h: "holds_job i x t" and fits: "op_fits y" and other: "op_pid y \<noteq> pid x"
  shows "\<exists>t'. apply_op t y = Some t' \<and> holds_job i x t'"
proof (cases y)
  case (Addjob q st cl)
  from h have inv: "jobs_inv t" by (simp add: holds_job_def)
  from fits Addjob have cl: "length cl < MAXLINE" by simp
  from addjob_cases[OF inv cl, of q st] show ?thesis
  proof
    assume "addjob t q st cl = Some (t, 0)"
    with Addjob h show ?thesis by simp
  next
    assume "\<exists>k f. k < MAXJOBS \<and> pid (t ! k) = 0 \<and> 1 \<le> q \<and> smallest_free_jid t f \<and>
            addjob t q st cl = Some (t[k := \<lparr>pid = q, jid = f, state = st, cmdline = cl\<rparr>], 1)"
    then obtain k f where k: "k < MAXJOBS" "pid (t ! k) = 0"
      and a: "addjob t q st cl = Some (t[k := \<lparr>pid = q, jid = f, state = st, cmdline = cl\<rparr>], 1)"
      by blast
    let ?t = "t[k := \<lparr>pid = q, jid = f, state = st, cmdline = cl\<rparr>]"
    from addjob_inv[OF inv a] have "jobs_inv ?t" .
    moreover from h k have "k \<noteq> i" by (auto simp: holds_job_def)
    moreover from other Addjob have "q \<noteq> pid x" by simp
    ultimately have "holds_job i x ?t"
      using h k inv by (auto simp: holds_job_def jobs_inv_def nth_list_update)
    with a Addjob show ?thesis by simp
  qed
next
  case (Deletejob q)
  from h have inv: "jobs_inv t" by (simp add: holds_job_def)
  from deletejob_cases[of t q] show ?thesis
  proof
    assume "deletejob t q = (t, 0)"
    with Deletejob h show ?thesis by simp
  next
    assume "\<exists>k<MAXJOBS. pid (t ! k) = q \<and> (\<forall>j<k. pid (t ! j) \<noteq> q) \<and> 1 \<le> q \<and>
              deletejob t q = (t[k := clearjob (t ! k)], 1)"
    then obtain k where k: "k < MAXJOBS" "pid (t ! k) = q"
      and d: "deletejob t q = (t[k := clearjob (t ! k)], 1)" by blast
    from deletejob_inv[OF inv, of q] d have "jobs_inv (t[k := clearjob (t ! k)])" by simp
    moreover from other Deletejob k h have "k \<noteq> i" by (auto simp: holds_job_def)
    moreover have "pid (clearjob (t ! k)) = 0" by (simp add: clearjob_def)
    ultimately have "holds_job i x (t[k := clearjob (t ! k)])"
      using h k inv by (auto simp: holds_job_def jobs_inv_def nth_list_update)
    with d Deletejob show ?thesis by simp
  qed
qed

lemma run_ops_holds:
  "holds_job i x t \<Longrightarrow> list_all op_fits ops \<Longrightarrow> \<forall>y\<in>set ops. op_pid y \<noteq> pid x \<Longrightarrow>
   \<exists>t'. run_ops t ops = Some t' \<and> holds_job i x t'"
proof (induction ops arbitrary: t)
  case Nil
  then show ?case by simp
next
  case (Cons y ys)
  from apply_op_holds[of i x t y] Cons.prems obtain u where
    u: "apply_op t y = Some u" "holds_job i x u" by auto
  from Cons.IH[OF u(2)] Cons.prems u(1) show ?case by simp
qed

lemma holds_job_lookup:
  assumes h: "holds_job i x t"
  shows "getjobpid t (pid x) = Some i" and "getjobjid t (jid x) = Some i"
    and "deletejob t (pid x) = (t[i := clearjob x], 1)"
    and "getjobpid (t[i := clearjob x]) (pid x) = None"
    and "getjobjid (t[i := clearjob x]) (jid x) = None"
proof -
  from h have inv: "jobs_inv t" and i: "i < MAXJOBS" "t ! i = x" and p: "1 \<le> pid x"
    and uniq: "\<forall>k<MAXJOBS. k \<noteq> i \<longrightarrow> pid (t ! k) \<noteq> pid x"
    by (simp_all add: holds_job_def)
  from inv[unfolded jobs_inv_nth] have len: "length t = MAXJOBS"
    and ok: "\<forall>k<MAXJOBS. slot_ok (t ! k)"
    and dist: "\<forall>a<MAXJOBS. \<forall>b<MAXJOBS. a \<noteq> b \<longrightarrow> pid (t ! a) \<noteq> 0 \<longrightarrow> pid (t ! b) \<noteq> 0 \<longrightarrow>
        jid (t ! a) \<noteq> jid (t ! b)"
    by blast+
  from ok i p have j: "1 \<le> jid x" by (auto simp: slot_ok_def)
  have other: "jid (t ! k) \<noteq> jid x" if "k < MAXJOBS" "k \<noteq> i" for k
  proof (cases "pid (t ! k) = 0")
    case True
    with ok that have "jid (t ! k) = 0" by (auto simp: slot_ok_def)
    with j show ?thesis by simp
  next
    case False
    with dist that i p show ?thesis by auto
  qed
  have fp: "find (\<lambda>k. pid (t ! k) = pid x) [0..<MAXJOBS] = Some i"
    unfolding find_upt_Some using i uniq by auto
  have fj: "find (\<lambda>k. jid (t ! k) = jid x) [0..<MAXJOBS] = Some i"
    unfolding find_upt_Some using i other by auto
  from fp p show "getjobpid t (pid x) = Some i" by (simp add: getjobpid_def)
  from fj j show "getjobjid t (jid x) = Some i" by (simp add: getjobjid_def)
  from fp p i show "deletejob t (pid x) = (t[i := clearjob x], 1)"
    by (simp add: deletejob_def)
  have "find (\<lambda>k. pid (t[i := clearjob x] ! k) = pid x) [0..<MAXJOBS] = None"
    unfolding find_upt_None using uniq p len i by (auto simp: nth_list_update clearjob_def)
  with p show "getjobpid (t[i := clearjob x]) (pid x) = None" by (simp add: getjobpid_def)
  have "find (\<lambda>k. jid (t[i := clearjob x] ! k) = jid x) [0..<MAXJOBS] = None"
    unfolding find_upt_None using other j len i by (auto simp: nth_list_update clearjob_def)
  with j show "getjobjid (t[i := clearjob x]) (jid x) = None" by (simp add: getjobjid_def)
qed

subsection \<open>The parser and the launch path\<close>

lemma parseline_argc: "parseline line = Some (argv, n) \<Longrightarrow> n = int (length argv)"
  by (auto simp: parseline_def split: if_splits prod.splits option.splits)

lemma addjob_shape:
  assumes "addjob jobs p st cl = Some (jobs', r)"
  shows "(r = 0 \<and> jobs' = jobs) \<or>
         (r = 1 \<and> 1 \<le> p \<and> (\<exists>i<MAXJOBS. \<exists>f. jobs' = jobs[i := \<lparr>pid = p, jid = f, state = st, cmdline = cl\<rparr>]))"
proof -
  have x: "(y::job_t)\<lparr>pid := p, state := st, jid := f, cmdline := cl\<rparr>
      = \<lparr>pid = p, jid = f, state = st, cmdline = cl\<rparr>" for y f
    by simp
  from assms show ?thesis
    unfolding addjob_def x
    by (auto split: if_splits option.splits simp: find_upt_Some)
qed

lemma deliver_same: "deliver s jobs = Some jobs' \<Longrightarrow> jobs' = jobs"
  by (cases s)
    (simp_all add: sigchld_handler_def sigint_handler_def sigtstp_handler_def sigusr1_handler_def)

lemma waitfg_stuck:
  "fgpid jobs = p \<Longrightarrow> waitfg jobs p sigs = Suspended jobs \<or> waitfg jobs p sigs = Exits"
proof (induction sigs)
  case Nil
  then show ?case by simp
next
  case (Cons s sigs)
  then show ?case
    by (cases "deliver s jobs") (auto dest: deliver_same)
qed

lemma waitfg_passes: "fgpid jobs \<noteq> p \<Longrightarrow> waitfg jobs p sigs = Returns jobs"
  by (cases sigs) simp_all

lemma fg_count_0: "fg_count jobs = 0 \<longleftrightarrow> (\<forall>x\<in>set jobs. state x \<noteq> FG)"
  by (auto simp: fg_count_def filter_empty_conv)

lemma fg_count_update:
  assumes "fg_count jobs = 0"
  shows "fg_count (jobs[i := x]) = (if i < length jobs \<and> state x = FG then 1 else 0)"
proof (cases "i < length jobs")
  case False
  then have "jobs[i := x] = jobs" by (simp add: list_update_beyond)
  with assms False show ?thesis by simp
next
  case True
  from assms have none: "\<forall>y\<in>set jobs. state y \<noteq> FG" by (simp add: fg_count_0)
  have "filter (\<lambda>j. state j = FG) (take i jobs) = []"
    "filter (\<lambda>j. state j = FG) (drop (Suc i) jobs) = []"
    using none by (auto simp: filter_empty_conv dest: in_set_takeD in_set_dropD)
  with True show ?thesis
    by (simp add: fg_count_def upd_conv_take_nth_drop)
qed

lemma fgpid_update:
  assumes "fg_count jobs = 0" "i < MAXJOBS" "length jobs = MAXJOBS" "state x = FG"
  shows "fgpid (jobs[i := x]) = pid x"
proof -
  from assms(1) have none: "\<forall>y\<in>set jobs. state y \<noteq> FG" by (simp add: fg_count_0)
  have "find (\<lambda>k. state (jobs[i := x] ! k) = FG) [0..<MAXJOBS] = Some i"
    unfolding find_upt_Some using assms none by (auto simp: nth_list_update)
  with assms show ?thesis by (simp add: fgpid_def)
qed

lemma fgpid_none:
  assumes "fg_count jobs = 0" "length jobs = MAXJOBS"
  shows "fgpid jobs = 0"
proof -
  from assms(1) have none: "\<forall>y\<in>set jobs. state y \<noteq> FG" by (simp add: fg_count_0)
  have "find (\<lambda>k. state (jobs ! k) = FG) [0..<MAXJOBS] = None"
    unfolding find_upt_None using assms none by auto
  then show ?thesis by (simp add: fgpid_def)
qed

lemma launch_fg:
  assumes l: "launch bg p line sigs jobs = Some (tr, out)"
    and len: "length jobs = MAXJOBS" and none: "fg_count jobs = 0"
  shows "(out = Returns jobs' \<longrightarrow> length jobs' = MAXJOBS \<and> fg_count jobs' = 0) \<and>
         (out = Suspended jobs' \<longrightarrow> fg_count jobs' \<le> 1)"
proof (cases "p \<le> 0")
  case True
  with l show ?thesis by (auto simp: launch_def split: if_splits)
next
  case False
  then have p: "0 < p" by simp
  show ?thesis
  proof (cases "bg = 0")
    case bg: False
    with l p obtain t r where a: "addjob jobs p BG line = Some (t, r)" and out: "out = Returns t"
      by (auto simp: launch_def split: option.splits)
    from addjob_shape[OF a] len none have "length t = MAXJOBS \<and> fg_count t = 0"
      by (auto simp: fg_count_update FG_def BG_def)
    with out show ?thesis by auto
  next
    case bg: True
    with l p obtain t r where a: "addjob jobs p FG line = Some (t, r)"
      and out: "out = waitfg t p sigs"
      by (auto simp: launch_def split: option.splits)
    from addjob_shape[OF a] show ?thesis
    proof
      assume "r = 0 \<and> t = jobs"
      with fgpid_none[OF none len] p have "waitfg t p sigs = Returns jobs"
        by (simp add: waitfg_passes)
      with out len none show ?thesis by auto
    next
      assume "r = 1 \<and> 1 \<le> p \<and>
        (\<exists>i<MAXJOBS. \<exists>f. t = jobs[i := \<lparr>pid = p, jid = f, state = FG, cmdline = line\<rparr>])"
      then obtain i f where i: "i < MAXJOBS"
        and t: "t = jobs[i := \<lparr>pid = p, jid = f, state = FG, cmdline = line\<rparr>]" by blast
      from fgpid_update[OF none i len, of "\<lparr>pid = p, jid = f, state = FG, cmdline = line\<rparr>"] t
      have "fgpid t = p" by simp
      from waitfg_stuck[OF this, of sigs] out have "out = Suspended t \<or> out = Exits" by simp
      moreover have "fg_count t \<le> 1" unfolding t by (simp add: fg_count_update[OF none])
      ultimately show ?thesis by auto
    qed
  qed
qed

lemma eval_fg:
  assumes e: "eval line p sigs jobs = Some (tr, out)"
    and len: "length jobs = MAXJOBS" and none: "fg_count jobs = 0"
  shows "(out = Returns jobs' \<longrightarrow> length jobs' = MAXJOBS \<and> fg_count jobs' = 0) \<and>
         (out = Suspended jobs' \<longrightarrow> fg_count jobs' \<le> 1)"
proof -
  from e have "(tr = [] \<and> out = Returns jobs) \<or> (\<exists>bg. launch bg p line sigs jobs = Some (tr, out))"
    by (auto simp: eval_def split: if_splits option.splits)
  then show ?thesis
  proof
    assume "tr = [] \<and> out = Returns jobs"
    with len none show ?thesis by auto
  next
    assume "\<exists>bg. launch bg p line sigs jobs = Some (tr, out)"
    then obtain bg where "launch bg p line sigs jobs = Some (tr, out)" ..
    from launch_fg[OF this len none] show ?thesis .
  qed
qed

lemma at_prompt_no_fg: "at_prompt jobs \<Longrightarrow> length jobs = MAXJOBS \<and> fg_count jobs = 0"
proof (induction rule: at_prompt.induct)
  case start
  have "length jobs0 = MAXJOBS" by (simp add: jobs0_def)
  then show ?case
    by (simp add: initjobs_map fg_count_0 clearjob_def UNDEF_def FG_def)
next
  case (eval_returns jobs line p sigs tr jobs')
  from eval_fg[OF eval_returns.hyps(2), of jobs'] eval_returns.IH show ?case by simp
next
  case (signal jobs s jobs')
  then show ?case by (auto dest: deliver_same)
next
  case (bgfg jobs argv)
  then show ?case by (simp add: do_bgfg_def)
qed

lemma eval_launch:
  assumes "parseline line = Some (argv, bg)" "argv \<noteq> []"
  shows "eval line p sigs jobs = launch bg p line sigs jobs"
proof -
  from assms(1) have "\<not> MAXLINE \<le> length line"
    by (auto simp: parseline_def split: if_splits)
  with assms show ?thesis by (simp add: eval_def builtin_cmd_def)
qed

lemma eval_cases:
  assumes "eval line p sigs jobs = Some (tr, out)"
  shows "(tr = [] \<and> out = Returns jobs) \<or>
         (\<exists>bg. bg \<noteq> 0 \<and> launch bg p line sigs jobs = Some (tr, out))"
proof -
  from assms obtain argv bg where pl: "parseline line = Some (argv, bg)"
    by (auto simp: eval_def split: if_splits option.splits)
  show ?thesis
  proof (cases "argv = []")
    case True
    with assms pl show ?thesis by (auto simp: eval_def split: if_splits)
  next
    case False
    with parseline_argc[OF pl] have "bg \<noteq> 0" by simp
    moreover from eval_launch[OF pl False] assms have "launch bg p line sigs jobs = Some (tr, out)"
      by simp
    ultimately show ?thesis by blast
  qed
qed

lemma eval_never_foreground:
  assumes "eval line p sigs jobs = Some (tr, out)"
  shows "EvWaitfg q \<notin> set tr" and "EvAddjob q FG \<notin> set tr"
proof -
  from eval_cases[OF assms] have
    "EvWaitfg q \<notin> set tr \<and> EvAddjob q FG \<notin> set tr"
    by (auto simp: launch_def FG_def BG_def split: if_splits option.splits)
  then show "EvWaitfg q \<notin> set tr" and "EvAddjob q FG \<notin> set tr" by simp_all
qed

lemma launch_inv:
  assumes "launch bg p line sigs jobs = Some (tr, Returns jobs')" "jobs_inv jobs"
  shows "jobs_inv jobs'"
proof (cases "0 < p")
  case False
  with assms show ?thesis by (auto simp: launch_def split: if_splits)
next
  case True
  show ?thesis
  proof (cases "bg = 0")
    case bg: False
    with assms(1) True obtain r where "addjob jobs p BG line = Some (jobs', r)"
      by (auto simp: launch_def split: option.splits)
    from addjob_inv[OF assms(2) this] show ?thesis .
  next
    case bg: True
    with assms(1) True obtain t r where a: "addjob jobs p FG line = Some (t, r)"
      and w: "waitfg t p sigs = Returns jobs'"
      by (auto simp: launch_def split: option.splits)
    have "waitfg t p sigs = Returns u \<Longrightarrow> u = t" for u
    proof (induction sigs)
      case Nil
      then show ?case by (simp split: if_splits)
    next
      case (Cons s sigs)
      then show ?case
        by (cases "deliver s t") (auto split: if_splits dest: deliver_same)
    qed
    from this[OF w] addjob_inv[OF assms(2) a] show ?thesis by simp
  qed
qed

lemma at_prompt_inv: "at_prompt jobs \<Longrightarrow> jobs_inv jobs"
proof (induction rule: at_prompt.induct)
  case start
  have "length jobs0 = MAXJOBS" by (simp add: jobs0_def)
  then show ?case by (rule initjobs_inv)
next
  case (eval_returns jobs line p sigs tr jobs')
  from eval_cases[OF eval_returns.hyps(2)] eval_returns.IH show ?case
    by (auto dest: launch_inv)
next
  case (signal jobs s jobs')
  then show ?case by (auto dest: deliver_same)
next
  case (bgfg jobs argv)
  then show ?case by (simp add: do_bgfg_def)
qed

section \<open>The parser\<close>

text \<open>
  C1 says that \<open>parseline\<close> returns, besides the argument vector, a boolean that is true
  exactly when the line ends with \<^verbatim>\<open>&\<close>, so that a command without \<^verbatim>\<open>&\<close> is launched
  in the foreground. The code returns the number of arguments, and \<^verbatim>\<open>eval\<close> stores it
  in \<^verbatim>\<open>bg\<close>: for the line \<^verbatim>\<open>ls\<close> the value is 1, the job is registered with state
  \<open>BG\<close> and \<^verbatim>\<open>waitfg\<close> is not called; a trailing \<^verbatim>\<open>&\<close> stays in the argument vector.
\<close>

theorem parseline_returns_argc:
  "parseline (''ls'' @ [CHR 0x0A]) = Some ([''ls''], 1) \<and>
   parseline (''ls &'' @ [CHR 0x0A]) = Some ([''ls'', ''&''], 2) \<and>
   eval (''ls'' @ [CHR 0x0A]) 100 [] (initjobs jobs0)
     = Some ([EvBlock, EvFork, EvAddjob 100 BG, EvPrintJob 1 100 (''ls'' @ [CHR 0x0A]), EvUnblock],
             Returns ((initjobs jobs0)
               [0 := \<lparr>pid = 100, jid = 1, state = BG, cmdline = ''ls'' @ [CHR 0x0A]\<rparr>]))"
  by code_simp

section \<open>The job list routines\<close>

text \<open>
  C2. For every job list the shell maintains, and every pid, state and command line that
  fits the \<^verbatim>\<open>cmdline\<close> field, \<open>addjob\<close> returns 0 exactly when the list is full (no slot
  with pid 0) or \<open>pid < 1\<close>, and then leaves the list as it is. Otherwise it returns 1: one
  slot that was unused is filled with
  exactly the given pid, state and command line, and its jid is the smallest positive
  integer that is the jid of no used slot at the time of the call; nothing else changes.
\<close>

theorem addjob_contract:
  assumes inv: "jobs_inv jobs" and cl: "length cl < MAXLINE"
  shows "\<exists>jobs' r. addjob jobs p st cl = Some (jobs', r) \<and>
           (r = 0 \<longleftrightarrow> (\<forall>i<MAXJOBS. pid (jobs ! i) \<noteq> 0) \<or> p < 1) \<and>
           (r = 0 \<longrightarrow> jobs' = jobs) \<and>
           (r \<noteq> 0 \<longrightarrow> r = 1 \<and>
              (\<exists>i<MAXJOBS. \<exists>f. pid (jobs ! i) = 0 \<and> smallest_free_jid jobs f \<and>
                 jobs' = jobs[i := \<lparr>pid = p, jid = f, state = st, cmdline = cl\<rparr>]))"
proof -
  from inv have len: "length jobs = MAXJOBS" and ok: "list_all slot_ok jobs"
    by (simp_all add: jobs_inv_def)
  show ?thesis
  proof (cases "p < 1 \<or> (\<forall>i<MAXJOBS. pid (jobs ! i) \<noteq> 0)")
    case True
    from addjob_fail[OF len ok True, of st cl] True show ?thesis by auto
  next
    case False
    then have p1: "1 \<le> p" and fr: "\<exists>i<MAXJOBS. pid (jobs ! i) = 0" by auto
    from addjob_success[OF len ok p1 fr cl, of st] obtain i f where
      *: "i < MAXJOBS" "pid (jobs ! i) = 0" "smallest_free_jid jobs f"
      "addjob jobs p st cl =
         Some (jobs[i := (jobs ! i)\<lparr>pid := p, state := st, jid := f, cmdline := cl\<rparr>], 1)"
      by blast
    have "(jobs ! i)\<lparr>pid := p, state := st, jid := f, cmdline := cl\<rparr>
          = \<lparr>pid = p, jid = f, state = st, cmdline = cl\<rparr>"
      by simp
    with * False show ?thesis by auto
  qed
qed

text \<open>The first job added to the initialised list goes to slot 0 with jid 1.\<close>

theorem addjob_contract_witness:
  "jobs_inv (initjobs jobs0) \<and> length ''ls'' < MAXLINE \<and>
   (\<exists>jobs' r. addjob (initjobs jobs0) 5 BG ''ls'' = Some (jobs', r) \<and> r = 1 \<and>
      jobs' = (initjobs jobs0)[0 := \<lparr>pid = 5, jid = 1, state = BG, cmdline = ''ls''\<rparr>])"
proof -
  have inv: "jobs_inv (initjobs jobs0)" by code_simp
  have cl: "length ''ls'' < MAXLINE" by code_simp
  have run: "addjob (initjobs jobs0) 5 BG ''ls''
      = Some ((initjobs jobs0)[0 := \<lparr>pid = 5, jid = 1, state = BG, cmdline = ''ls''\<rparr>], 1)"
    by code_simp
  from addjob_contract[OF inv cl, of 5 BG] run inv cl show ?thesis by simp
qed

text \<open>
  C3. After every sequence of \<open>addjob\<close> and \<open>deletejob\<close> calls on the initialised job
  list (command lines fitting the \<^verbatim>\<open>cmdline\<close> field), the calls all return, no two used
  slots have the same jid, and every further \<open>addjob\<close> that succeeds gives the new job the
  smallest positive jid held by no used slot at that moment. The sequence is arbitrary, so
  this covers every \<open>addjob\<close> of a sequence, also after a \<open>deletejob\<close> has freed an id.
\<close>

theorem jids_unique_smallest:
  assumes len: "length jobs = MAXJOBS" and fits: "list_all op_fits ops"
  shows "\<exists>t. run_ops (initjobs jobs) ops = Some t \<and> distinct (live_jids t) \<and>
           (\<forall>p st cl t'. addjob t p st cl = Some (t', 1) \<longrightarrow>
              (\<exists>i<MAXJOBS. \<exists>f. pid (t ! i) = 0 \<and> smallest_free_jid t f \<and>
                 t' = t[i := \<lparr>pid = p, jid = f, state = st, cmdline = cl\<rparr>]))"
proof -
  from run_ops_inv[OF initjobs_inv[OF len] fits] obtain t where
    t: "run_ops (initjobs jobs) ops = Some t" "jobs_inv t" by blast
  have "\<exists>i<MAXJOBS. \<exists>f. pid (t ! i) = 0 \<and> smallest_free_jid t f \<and>
          t' = t[i := \<lparr>pid = p, jid = f, state = st, cmdline = cl\<rparr>]"
    if "addjob t p st cl = Some (t', 1)" for p st cl t'
  proof -
    from addjob_result[OF t(2) that] obtain i f where
      *: "i < MAXJOBS" "pid (t ! i) = 0" "smallest_free_jid t f"
      "t' = t[i := (t ! i)\<lparr>pid := p, state := st, jid := f, cmdline := cl\<rparr>]"
      by blast
    have "(t ! i)\<lparr>pid := p, state := st, jid := f, cmdline := cl\<rparr>
          = \<lparr>pid = p, jid = f, state = st, cmdline = cl\<rparr>"
      by simp
    with * show ?thesis by auto
  qed
  with t show ?thesis by (auto simp: jobs_inv_def)
qed

text \<open>
  Two jobs are added (jids 1 and 2), the first is deleted, and the next job added gets
  the reclaimed jid 1 in slot 0.
\<close>

theorem jids_unique_smallest_witness:
  "length jobs0 = MAXJOBS \<and>
   list_all op_fits [Addjob 10 BG ''a'', Addjob 11 BG ''b'', Deletejob 10] \<and>
   (\<exists>t. run_ops (initjobs jobs0) [Addjob 10 BG ''a'', Addjob 11 BG ''b'', Deletejob 10] = Some t \<and>
      distinct (live_jids t) \<and> live_jids t = [2] \<and>
      (\<exists>i<MAXJOBS. \<exists>f. pid (t ! i) = 0 \<and> smallest_free_jid t f \<and>
         t[0 := \<lparr>pid = 12, jid = 1, state = FG, cmdline = ''c''\<rparr>]
           = t[i := \<lparr>pid = 12, jid = f, state = FG, cmdline = ''c''\<rparr>]))"
proof -
  let ?ops = "[Addjob 10 BG ''a'', Addjob 11 BG ''b'', Deletejob 10]"
  let ?t = "(initjobs jobs0)[1 := \<lparr>pid = 11, jid = 2, state = BG, cmdline = ''b''\<rparr>]"
  have len: "length jobs0 = MAXJOBS" by code_simp
  have fits: "list_all op_fits ?ops" by code_simp
  have run: "run_ops (initjobs jobs0) ?ops = Some ?t" by code_simp
  have jids: "live_jids ?t = [2]" by code_simp
  have add: "addjob ?t 12 FG ''c''
      = Some (?t[0 := \<lparr>pid = 12, jid = 1, state = FG, cmdline = ''c''\<rparr>], 1)"
    by code_simp
  from jids_unique_smallest[OF len fits] run
  have "distinct (live_jids ?t)"
    and "\<forall>p st cl t'. addjob ?t p st cl = Some (t', 1) \<longrightarrow>
           (\<exists>i<MAXJOBS. \<exists>f. pid (?t ! i) = 0 \<and> smallest_free_jid ?t f \<and>
              t' = ?t[i := \<lparr>pid = p, jid = f, state = st, cmdline = cl\<rparr>])"
    by simp_all
  with add have "distinct (live_jids ?t)"
    and "\<exists>i<MAXJOBS. \<exists>f. pid (?t ! i) = 0 \<and> smallest_free_jid ?t f \<and>
           ?t[0 := \<lparr>pid = 12, jid = 1, state = FG, cmdline = ''c''\<rparr>]
             = ?t[i := \<lparr>pid = 12, jid = f, state = FG, cmdline = ''c''\<rparr>]"
    by blast+
  with len fits run jids show ?thesis by simp
qed

text \<open>
  C5, as stated: every job added via \<open>addjob\<close> is found by \<open>getjobpid\<close> and by
  \<open>getjobjid\<close> in the same slot, and after a successful \<open>deletejob\<close> of its pid both
  lookups find nothing. \<open>addjob\<close> does not look for the pid in the list, so this fails when
  a pid is added twice: the second job (jid 2, in slot 1) is found by its jid, but
  \<open>getjobpid\<close> returns slot 0, the first job, with another jid, state and command line;
  and after \<open>deletejob\<close> has succeeded for pid 5, \<open>getjobpid\<close> still finds a job.
\<close>

theorem addjob_same_pid_counterexample:
  "run_ops (initjobs jobs0) [Addjob 5 BG ''a'', Addjob 5 FG ''b''] = Some same_pid_jobs \<and>
   getjobjid same_pid_jobs 2 = Some 1 \<and> getjobpid same_pid_jobs 5 = Some 0 \<and>
   same_pid_jobs ! 1 = \<lparr>pid = 5, jid = 2, state = FG, cmdline = ''b''\<rparr> \<and>
   same_pid_jobs ! 0 = \<lparr>pid = 5, jid = 1, state = BG, cmdline = ''a''\<rparr> \<and>
   snd (deletejob same_pid_jobs 5) = 1 \<and>
   getjobpid (fst (deletejob same_pid_jobs 5)) 5 = Some 1"
  by code_simp

text \<open>
  C5, amended. A job added via \<open>addjob\<close> under a pid that no slot holds yet is found by
  \<open>getjobpid\<close> (by its pid) and by \<open>getjobjid\<close> (by its jid) in the same slot, which
  holds exactly the given pid, state and command line and the assigned jid. This stays so
  through every sequence of further \<open>addjob\<close> and \<open>deletejob\<close> calls for other pids.
  A \<open>deletejob\<close> of its pid then succeeds, and after it both lookups find nothing.
\<close>

theorem addjob_lookup_roundtrip:
  assumes inv: "jobs_inv jobs"
    and fresh: "p \<notin> set (map pid jobs)"
    and add: "addjob jobs p st cl = Some (jobs1, 1)"
    and fits: "list_all op_fits ops"
    and others: "p \<notin> set (map op_pid ops)"
  shows "\<exists>i f t. i < MAXJOBS \<and> run_ops jobs1 ops = Some t \<and>
           jobs1 ! i = \<lparr>pid = p, jid = f, state = st, cmdline = cl\<rparr> \<and> t ! i = jobs1 ! i \<and>
           getjobpid t p = Some i \<and> getjobjid t f = Some i \<and>
           (\<exists>t'. deletejob t p = (t', 1) \<and> getjobpid t' p = None \<and> getjobjid t' f = None)"
proof -
  from addjob_result[OF inv add] obtain i f where
    i: "i < MAXJOBS" "pid (jobs ! i) = 0" and p: "1 \<le> p"
    and j1: "jobs1 = jobs[i := (jobs ! i)\<lparr>pid := p, state := st, jid := f, cmdline := cl\<rparr>]"
    by blast
  let ?x = "\<lparr>pid = p, jid = f, state = st, cmdline = cl\<rparr>"
  have x: "(jobs ! i)\<lparr>pid := p, state := st, jid := f, cmdline := cl\<rparr> = ?x" by simp
  from inv have len: "length jobs = MAXJOBS" by (simp add: jobs_inv_def)
  from fresh len have fresh': "\<forall>k<MAXJOBS. pid (jobs ! k) \<noteq> p"
    by (metis image_eqI nth_mem set_map)
  from others have others': "\<forall>y\<in>set ops. op_pid y \<noteq> pid ?x" by auto
  have "holds_job i ?x jobs1"
    using addjob_inv[OF inv add] i p fresh' len unfolding holds_job_def j1 x
    by (auto simp: nth_list_update)
  from run_ops_holds[OF this fits others'] obtain t where
    t: "run_ops jobs1 ops = Some t" "holds_job i ?x t" by auto
  from holds_job_lookup[OF t(2)] t i len show ?thesis
    unfolding j1 x by (auto simp: holds_job_def)
qed

text \<open>
  Job 5 is added to the initialised list (slot 0, jid 1); job 6 is added and deleted; job 5
  is still found in slot 0 by pid and by jid, and no longer after its \<open>deletejob\<close>.
\<close>

theorem addjob_lookup_roundtrip_witness:
  "jobs_inv (initjobs jobs0) \<and> 5 \<notin> set (map pid (initjobs jobs0)) \<and>
   addjob (initjobs jobs0) 5 BG ''ls''
     = Some ((initjobs jobs0)[0 := \<lparr>pid = 5, jid = 1, state = BG, cmdline = ''ls''\<rparr>], 1) \<and>
   list_all op_fits [Addjob 6 FG ''vi'', Deletejob 6] \<and>
   5 \<notin> set (map op_pid [Addjob 6 FG ''vi'', Deletejob 6]) \<and>
   (\<exists>i f t. i < MAXJOBS \<and>
      run_ops ((initjobs jobs0)[0 := \<lparr>pid = 5, jid = 1, state = BG, cmdline = ''ls''\<rparr>])
        [Addjob 6 FG ''vi'', Deletejob 6] = Some t \<and>
      t ! i = \<lparr>pid = 5, jid = f, state = BG, cmdline = ''ls''\<rparr> \<and>
      getjobpid t 5 = Some i \<and> getjobjid t f = Some i \<and>
      (\<exists>t'. deletejob t 5 = (t', 1) \<and> getjobpid t' 5 = None \<and> getjobjid t' f = None))"
proof -
  let ?ops = "[Addjob 6 FG ''vi'', Deletejob 6]"
  have inv: "jobs_inv (initjobs jobs0)" by code_simp
  have fresh: "5 \<notin> set (map pid (initjobs jobs0))" by code_simp
  have add: "addjob (initjobs jobs0) 5 BG ''ls''
      = Some ((initjobs jobs0)[0 := \<lparr>pid = 5, jid = 1, state = BG, cmdline = ''ls''\<rparr>], 1)"
    by code_simp
  have fits: "list_all op_fits ?ops" by code_simp
  have others: "5 \<notin> set (map op_pid ?ops)" by code_simp
  from addjob_lookup_roundtrip[OF inv fresh add fits others] inv fresh add fits others
  show ?thesis by fastforce
qed

text \<open>
  C9, as stated: \<open>deletejob\<close> returns 0 if and only if no slot holds the given pid. This
  fails for pid 0: on the initialised list every slot holds pid 0, and \<open>deletejob\<close>
  returns 0, because of its guard \<^verbatim>\<open>if (pid < 1) return 0;\<close>.
\<close>

theorem deletejob_pid0_counterexample:
  "snd (deletejob (initjobs jobs0) 0) = 0 \<and> pid (initjobs jobs0 ! 0) = 0"
  by code_simp

text \<open>
  C9, amended. For every pid, \<open>deletejob\<close> returns 0 if and only if \<open>pid < 1\<close> or no slot
  holds that pid, and then the list is unchanged. Otherwise it returns 1 and exactly one
  slot, the first one holding that pid, is cleared (pid 0, jid 0, state \<open>UNDEF\<close>); all
  other slots are unchanged.
\<close>

theorem deletejob_contract:
  assumes "length jobs = MAXJOBS"
  shows "\<exists>jobs' r. deletejob jobs p = (jobs', r) \<and>
           (r = 0 \<longleftrightarrow> p < 1 \<or> (\<forall>i<MAXJOBS. pid (jobs ! i) \<noteq> p)) \<and>
           (r = 0 \<longrightarrow> jobs' = jobs) \<and>
           (r \<noteq> 0 \<longrightarrow> r = 1 \<and> length jobs' = MAXJOBS \<and>
              (\<exists>i<MAXJOBS. pid (jobs ! i) = p \<and> (\<forall>k<i. pid (jobs ! k) \<noteq> p) \<and>
                 pid (jobs' ! i) = 0 \<and> jid (jobs' ! i) = 0 \<and> state (jobs' ! i) = UNDEF \<and>
                 (\<forall>k<MAXJOBS. k \<noteq> i \<longrightarrow> jobs' ! k = jobs ! k)))"
proof (cases "p < 1")
  case True
  then show ?thesis by (simp add: deletejob_def)
next
  case False
  show ?thesis
  proof (cases "find (\<lambda>i. pid (jobs ! i) = p) [0..<MAXJOBS]")
    case None
    from None[unfolded find_upt_None] have "\<forall>i<MAXJOBS. pid (jobs ! i) \<noteq> p" by simp
    with None False show ?thesis by (simp add: deletejob_def)
  next
    case (Some i)
    from Some[unfolded find_upt_Some]
    have i: "i < MAXJOBS" "pid (jobs ! i) = p" "\<forall>k<i. pid (jobs ! k) \<noteq> p" by auto
    have "deletejob jobs p = (jobs[i := clearjob (jobs ! i)], 1)"
      using Some False by (simp add: deletejob_def)
    moreover have "\<not> (\<forall>i<MAXJOBS. pid (jobs ! i) \<noteq> p)" using i by blast
    moreover have "pid (jobs[i := clearjob (jobs ! i)] ! i) = 0"
      "jid (jobs[i := clearjob (jobs ! i)] ! i) = 0"
      "state (jobs[i := clearjob (jobs ! i)] ! i) = UNDEF"
      using i assms by (simp_all add: clearjob_def)
    moreover have "\<forall>k<MAXJOBS. k \<noteq> i \<longrightarrow> jobs[i := clearjob (jobs ! i)] ! k = jobs ! k"
      by simp
    ultimately show ?thesis using i assms False by auto
  qed
qed

text \<open>Deleting pid 7 from a list whose slot 2 holds it gives back the initialised list.\<close>

theorem deletejob_contract_witness:
  "length ((initjobs jobs0)[2 := \<lparr>pid = 7, jid = 1, state = BG, cmdline = ''ls''\<rparr>]) = MAXJOBS \<and>
   (\<exists>jobs' r.
      deletejob ((initjobs jobs0)[2 := \<lparr>pid = 7, jid = 1, state = BG, cmdline = ''ls''\<rparr>]) 7
        = (jobs', r) \<and> r = 1 \<and> jobs' = initjobs jobs0)"
proof -
  let ?t = "(initjobs jobs0)[2 := \<lparr>pid = 7, jid = 1, state = BG, cmdline = ''ls''\<rparr>]"
  have len: "length ?t = MAXJOBS" by code_simp
  have run: "deletejob ?t 7 = (initjobs jobs0, 1)" by code_simp
  from deletejob_contract[OF len, of 7] run len show ?thesis by simp
qed

text \<open>
  C10. For every identifier below 1 the lookups and the removal report not-found whatever
  the job list holds: \<open>getjobpid\<close> and \<open>getjobjid\<close> return \<^verbatim>\<open>NULL\<close>, \<open>pid2jid\<close>
  returns 0, and \<open>deletejob\<close> returns 0 and leaves the list as it is.
\<close>

theorem nonpositive_ids_not_found:
  "(p < 1 \<longrightarrow> getjobpid jobs p = None \<and> pid2jid jobs p = 0 \<and> deletejob jobs p = (jobs, 0)) \<and>
   (j < 1 \<longrightarrow> getjobjid jobs j = None)"
  by (simp add: getjobpid_def getjobjid_def pid2jid_def deletejob_def)

text \<open>On the initialised list slot 0 stores pid 0 and jid 0, and still nothing is found for 0.\<close>

theorem nonpositive_ids_not_found_witness:
  "pid (initjobs jobs0 ! 0) = 0 \<and> jid (initjobs jobs0 ! 0) = 0 \<and>
   getjobpid (initjobs jobs0) 0 = None \<and> pid2jid (initjobs jobs0) 0 = 0 \<and>
   deletejob (initjobs jobs0) 0 = (initjobs jobs0, 0) \<and> getjobjid (initjobs jobs0) 0 = None"
proof -
  have "pid (initjobs jobs0 ! 0) = 0" "jid (initjobs jobs0 ! 0) = 0"
    by code_simp+
  with nonpositive_ids_not_found[of 0 "initjobs jobs0" 0] show ?thesis by simp
qed

section \<open>The shell\<close>

text \<open>
  C4. In every state of the job list that the shell can reach from the initialised list
  (through \<^verbatim>\<open>eval\<close> registering jobs, \<^verbatim>\<open>do_bgfg\<close> and the signal handlers, at the
  prompt or suspended in \<^verbatim>\<open>waitfg\<close>), the number of jobs in state \<open>FG\<close> is 0 or 1.
\<close>

theorem at_most_one_foreground:
  assumes "shell_state jobs"
  shows "fg_count jobs = 0 \<or> fg_count jobs = 1"
  using assms
proof cases
  case prompt
  then show ?thesis by (simp add: at_prompt_no_fg)
next
  case (waiting t line p sigs tr)
  from at_prompt_no_fg[OF waiting(1)] eval_fg[OF waiting(2), of jobs] show ?thesis by auto
qed

text \<open>The job list after the first command line \<^verbatim>\<open>ls\<close> has been evaluated.\<close>

theorem at_most_one_foreground_witness:
  "shell_state ((initjobs jobs0)
      [0 := \<lparr>pid = 100, jid = 1, state = BG, cmdline = ''ls'' @ [CHR 0x0A]\<rparr>]) \<and>
   fg_count ((initjobs jobs0)
      [0 := \<lparr>pid = 100, jid = 1, state = BG, cmdline = ''ls'' @ [CHR 0x0A]\<rparr>]) = 0"
proof -
  let ?t = "(initjobs jobs0)[0 := \<lparr>pid = 100, jid = 1, state = BG, cmdline = ''ls'' @ [CHR 0x0A]\<rparr>]"
  have "eval (''ls'' @ [CHR 0x0A]) 100 [] (initjobs jobs0)
     = Some ([EvBlock, EvFork, EvAddjob 100 BG, EvPrintJob 1 100 (''ls'' @ [CHR 0x0A]), EvUnblock],
             Returns ?t)"
    by code_simp
  with at_prompt.start have "at_prompt ?t" by (rule at_prompt.eval_returns)
  then have s: "shell_state ?t" by (rule shell_state.prompt)
  have "fg_count ?t \<noteq> 1" by code_simp
  with at_most_one_foreground[OF s] s show ?thesis by simp
qed

text \<open>
  C6 says that the child-status handler removes the job of a terminated child and updates
  the state of a stopped or continued one. The body of \<^verbatim>\<open>sigchld_handler\<close> is
  \<^verbatim>\<open>return;\<close>: with a job for pid 5 in the list, the handler leaves the list as it is
  and the job is still found.
\<close>

theorem sigchld_handler_keeps_job:
  "sigchld_handler SIGCHLD ((initjobs jobs0)[0 := \<lparr>pid = 5, jid = 1, state = FG, cmdline = ''ls''\<rparr>])
     = (initjobs jobs0)[0 := \<lparr>pid = 5, jid = 1, state = FG, cmdline = ''ls''\<rparr>] \<and>
   getjobpid (sigchld_handler SIGCHLD
       ((initjobs jobs0)[0 := \<lparr>pid = 5, jid = 1, state = FG, cmdline = ''ls''\<rparr>])) 5 = Some 0"
  by code_simp

text \<open>
  C7 says that \<open>builtin_cmd\<close> recognises \<^verbatim>\<open>quit\<close>, \<^verbatim>\<open>jobs\<close>, \<^verbatim>\<open>bg\<close> and \<^verbatim>\<open>fg\<close> and
  executes them instead of handing them to the launcher. The body of \<^verbatim>\<open>builtin_cmd\<close> is
  \<^verbatim>\<open>return 0;\<close>: it returns 0 for these words too, and \<^verbatim>\<open>eval\<close> forks and registers a
  job for the line \<^verbatim>\<open>quit\<close>.
\<close>

theorem builtin_cmd_recognizes_nothing:
  "builtin_cmd [''quit''] = 0 \<and> builtin_cmd [''jobs''] = 0 \<and>
   builtin_cmd [''bg'', ''%1''] = 0 \<and> builtin_cmd [''fg'', ''%1''] = 0 \<and>
   eval (''quit'' @ [CHR 0x0A]) 100 [] (initjobs jobs0)
     = Some ([EvBlock, EvFork, EvAddjob 100 BG, EvPrintJob 1 100 (''quit'' @ [CHR 0x0A]), EvUnblock],
             Returns ((initjobs jobs0)
               [0 := \<lparr>pid = 100, jid = 1, state = BG, cmdline = ''quit'' @ [CHR 0x0A]\<rparr>]))"
  by code_simp


end
